theory Spec2Isabelle
  imports Main "HOL-Library.AList"
begin

section \<open>Python strings\<close>

text \<open>
  A Python \<open>str\<close> is a sequence of Unicode code points; the reasons of the
  blacklist are Japanese words, so a character is a code point (a natural
  number) and not a byte.  \<open>lit\<close> turns an ASCII literal into such a string.
\<close>

type_synonym pychar = nat
type_synonym pystr = "pychar list"

definition lit :: "string \<Rightarrow> pystr" where
  "lit s = map of_char s"

text \<open>
  \<open>str.isspace\<close> of one code point: the 29 code points that \<open>str.strip()\<close>
  removes (TAB..CR, FS..US, space, NEL, NBSP, Ogham space, the en/em spaces,
  line and paragraph separator, narrow NBSP, medium mathematical space,
  ideographic space).
\<close>

definition isspace :: "pychar \<Rightarrow> bool" where
  "isspace c \<longleftrightarrow>
     (9 \<le> c \<and> c \<le> 13) \<or> (28 \<le> c \<and> c \<le> 32) \<or> c = 133 \<or> c = 160 \<or> c = 5760 \<or>
     (8192 \<le> c \<and> c \<le> 8202) \<or> c = 8232 \<or> c = 8233 \<or> c = 8239 \<or> c = 8287 \<or>
     c = 12288"

text \<open>\<open>s.strip()\<close>: drop the white space at both ends.\<close>

definition strip :: "pystr \<Rightarrow> pystr" where
  "strip s = rev (dropWhile isspace (rev (dropWhile isspace s)))"

text \<open>\<open>s.startswith(p)\<close>.\<close>

fun startswith :: "pystr \<Rightarrow> pystr \<Rightarrow> bool" where
  "startswith s [] = True"
| "startswith [] (p # ps) = False"
| "startswith (c # cs) (p # ps) = (c = p \<and> startswith cs ps)"

text \<open>
  \<open>q in s\<close> on strings: \<open>q\<close> occurs in \<open>s\<close> as a contiguous block.  The empty
  string occurs in every string.
\<close>

fun str_in :: "pystr \<Rightarrow> pystr \<Rightarrow> bool" where
  "str_in q [] = (q = [])"
| "str_in q (c # cs) = (startswith (c # cs) q \<or> str_in q cs)"

text \<open>
  \<open>cell.split(",")\<close> for a one-character separator: the fields between the
  separators, so that the empty string gives one empty field.
\<close>

fun split_acc :: "pychar \<Rightarrow> pystr \<Rightarrow> pystr \<Rightarrow> pystr list" where
  "split_acc sep acc [] = [rev acc]"
| "split_acc sep acc (c # cs) =
     (if c = sep then rev acc # split_acc sep [] cs else split_acc sep (c # acc) cs)"

definition split :: "pychar \<Rightarrow> pystr \<Rightarrow> pystr list" where
  "split sep s = split_acc sep [] s"

text \<open>\<open>sep.join(xs)\<close>.\<close>

fun join :: "pystr \<Rightarrow> pystr list \<Rightarrow> pystr" where
  "join sep [] = []"
| "join sep [x] = x"
| "join sep (x # y # ys) = x @ sep @ join sep (y # ys)"

section \<open>The environment of the program\<close>

text \<open>
  What the program takes from outside its own text: the case tables of the
  Python runtime, the configured password and the remote player API.  They
  are fields of one record, and every function that depends on one of them
  takes the record.

  \<^item> \<open>char_upper\<close> is the full uppercase mapping of one code point
    (\<open>str.upper()\<close> maps every code point on its own, a code point may become
    several);
  \<^item> \<open>str_lower\<close> is \<open>str.lower()\<close>, a function of the whole string;
  \<^item> \<open>PASSWORD\<close> is the value of \<open>BLACKLIST_PASSWORD\<close> (default \<open>Debu\<close>);
  \<^item> \<open>http_get url now\<close> is the response of the player API to a request for
    \<open>url\<close> sent at time \<open>now\<close> (in seconds).
\<close>

text \<open>
  The player record of the API is a JSON object whose fields are strings
  (\<open>tag\<close>, \<open>name\<close>) and integers (the trophy and victory counts); the empty
  object is the empty list.  A response is its status and its body as
  \<open>r.json()\<close> reads it, \<open>None\<close> for a body that is not JSON.
\<close>

datatype jval = JStr pystr | JInt int

type_synonym pinfo = "(pystr \<times> jval) list"

record response =
  status_code :: nat
  json_body :: "pinfo option"

record env =
  char_upper :: "pychar \<Rightarrow> pystr"
  str_lower :: "pystr \<Rightarrow> pystr"
  PASSWORD :: pystr
  http_get :: "pystr \<Rightarrow> nat \<Rightarrow> response"

text \<open>\<open>s.upper()\<close>.\<close>

definition upper :: "env \<Rightarrow> pystr \<Rightarrow> pystr" where
  "upper E s = concat (map (char_upper E) s)"

text \<open>
  \<open>urllib.parse.quote(s, safe="")\<close>: the UTF-8 bytes of \<open>s\<close>, every byte
  except the unreserved ones (letters, digits, \<open>_.-~\<close>) written as \<open>%XX\<close>.
\<close>

definition utf8 :: "pychar \<Rightarrow> nat list" where
  "utf8 c =
     (if c < 128 then [c]
      else if c < 2048 then [192 + c div 64, 128 + c mod 64]
      else if c < 65536 then [224 + c div 4096, 128 + (c div 64) mod 64, 128 + c mod 64]
      else [240 + c div 262144, 128 + (c div 4096) mod 64, 128 + (c div 64) mod 64,
            128 + c mod 64])"

definition unreserved :: "nat \<Rightarrow> bool" where
  "unreserved b \<longleftrightarrow>
     (65 \<le> b \<and> b \<le> 90) \<or> (97 \<le> b \<and> b \<le> 122) \<or> (48 \<le> b \<and> b \<le> 57) \<or>
     b = 95 \<or> b = 46 \<or> b = 45 \<or> b = 126"

definition hex_digit :: "nat \<Rightarrow> pychar" where
  "hex_digit d = (if d < 10 then 48 + d else 55 + d)"

definition quote_byte :: "nat \<Rightarrow> pystr" where
  "quote_byte b = (if unreserved b then [b] else [37, hex_digit (b div 16), hex_digit (b mod 16)])"

definition quote :: "pystr \<Rightarrow> pystr" where
  "quote s = concat (map (\<lambda>c. concat (map quote_byte (utf8 c))) s)"

section \<open>Tag normalisation\<close>

text \<open>
  \<^verbatim>\<open>
  def normalize_tag(raw: str) -> str:
      t = raw.strip().upper()
      if not t.startswith("#"):
          t = "#" + t
      return t
  \<close>
\<close>

definition normalize_tag :: "env \<Rightarrow> pystr \<Rightarrow> pystr" where
  "normalize_tag E raw =
     (let t = upper E (strip raw)
      in if \<not> startswith t (lit ''#'') then lit ''#'' @ t else t)"

text \<open>
  \<^verbatim>\<open>
  def encode_tag(raw: str) -> str:
      t = raw.strip().upper()
      if not t.startswith("#"):
          t = "#" + t
      return quote(t, safe="")
  \<close>
\<close>

definition encode_tag :: "env \<Rightarrow> pystr \<Rightarrow> pystr" where
  "encode_tag E raw =
     (let t = upper E (strip raw);
          t = (if \<not> startswith t (lit ''#'') then lit ''#'' @ t else t)
      in quote t)"


section \<open>Errors\<close>

text \<open>
  The exceptions the program can raise: \<open>HTTPError\<close> from
  \<open>raise_for_status\<close> (the spec's \<open>UpstreamError\<close>), \<open>JSONDecodeError\<close> from
  \<open>r.json()\<close>, \<open>KeyError\<close> from a missing dictionary key or sheet column,
  \<open>AttributeError\<close> from \<open>.lower()\<close> on a name that is not a string.
\<close>

datatype error = HTTPError nat | JSONDecodeError | KeyError pystr | AttributeError

text \<open>\<open>d[k]\<close> and \<open>d.get(k, default)\<close> on a dictionary kept as an association list.\<close>

definition getitem :: "(pystr \<times> 'v) list \<Rightarrow> pystr \<Rightarrow> error + 'v" where
  "getitem d k = (case map_of d k of None \<Rightarrow> Inl (KeyError k) | Some v \<Rightarrow> Inr v)"

definition dict_get :: "(pystr \<times> 'v) list \<Rightarrow> pystr \<Rightarrow> 'v \<Rightarrow> 'v" where
  "dict_get d k dflt = (case map_of d k of None \<Rightarrow> dflt | Some v \<Rightarrow> v)"

section \<open>The entry store\<close>

text \<open>
  An entry is \<open>{"reasons": [...], "note": ...}\<close>; the entry mapping is a Python
  \<open>dict\<close> from tag to entry.  A \<open>dict\<close> keeps its keys in insertion order and
  the rows of the sheet are written in that order, so the mapping is an
  association list: \<open>d[k] = v\<close> is \<open>AList.update k v d\<close> (in place for a key
  that is there, at the end for a new one), and \<open>dict_ok\<close> says that no key
  occurs twice.
\<close>

record entry =
  reasons :: "pystr list"
  note_text :: pystr

type_synonym dict = "(pystr \<times> entry) list"



text \<open>\<open>d.pop(k)\<close>: raises \<open>KeyError\<close> when the key is absent.\<close>

definition dict_pop :: "pystr \<Rightarrow> dict \<Rightarrow> error + dict" where
  "dict_pop k d =
     (case map_of d k of None \<Rightarrow> Inl (KeyError k) | Some v \<Rightarrow> Inr (AList.delete k d))"

text \<open>
  Modelled from the spec: the spreadsheet behind \<open>get_sheet()\<close>, whose code is
  the client library's and not this repository's.  The spec: a tabular
  resource with a header row and the columns \<open>tag\<close>, \<open>reasons\<close>, \<open>note\<close>, read
  as a whole and overwritten as a whole.  The sheet is a grid of text cells,
  kept as its list of rows, together with the log of the operations
  performed on it.  \<open>sheet.clear()\<close> empties the grid; \<open>sheet.update(values)\<close>
  writes \<open>values\<close> from the top left cell and leaves every other cell as it
  was; \<open>sheet.get_all_records()\<close> pairs the cells of each row below the first
  with the cells of the first row.  The service is taken to be reachable
  and to hand back the text that was written.
\<close>

type_synonym grid = "pystr list list"

datatype sheet_op = Clear | Update grid

record sheet =
  cells :: grid
  ops :: "sheet_op list"

definition sheet_clear :: "sheet \<Rightarrow> sheet" where
  "sheet_clear sh = sh\<lparr>cells := [], ops := ops sh @ [Clear]\<rparr>"

fun overwrite :: "grid \<Rightarrow> grid \<Rightarrow> grid" where
  "overwrite [] old = old"
| "overwrite (v # vs) [] = v # overwrite vs []"
| "overwrite (v # vs) (r # rs) = (v @ drop (length v) r) # overwrite vs rs"

definition sheet_update :: "grid \<Rightarrow> sheet \<Rightarrow> sheet" where
  "sheet_update vals sh = sh\<lparr>cells := overwrite vals (cells sh), ops := ops sh @ [Update vals]\<rparr>"

definition get_all_records :: "sheet \<Rightarrow> (pystr \<times> pystr) list list" where
  "get_all_records sh = (case cells sh of [] \<Rightarrow> [] | h # rows \<Rightarrow> map (zip h) rows)"

text \<open>
  \<^verbatim>\<open>
  def load_entries_from_sheet():
      sheet = get_sheet()
      recs  = sheet.get_all_records()
      return {
          r["tag"]: {
              "reasons": r["reasons"].split(",") if r["reasons"] else [],
              "note":    r["note"]
          }
          for r in recs
      }
  \<close>
  The comprehension is a loop over the records that stores each one under
  its tag; a missing column raises \<open>KeyError\<close>.
\<close>

fun load_loop :: "(pystr \<times> pystr) list list \<Rightarrow> dict \<Rightarrow> error + dict" where
  "load_loop [] acc = Inr acc"
| "load_loop (r # recs) acc =
     (case getitem r (lit ''tag'') of
        Inl e \<Rightarrow> Inl e
      | Inr tag \<Rightarrow>
          (case getitem r (lit ''reasons'') of
             Inl e \<Rightarrow> Inl e
           | Inr rs \<Rightarrow>
               (case getitem r (lit ''note'') of
                  Inl e \<Rightarrow> Inl e
                | Inr n \<Rightarrow>
                    load_loop recs
                      (AList.update tag
                         \<lparr>reasons = (if rs \<noteq> [] then split 44 rs else []), note_text = n\<rparr>
                         acc))))"

definition load_entries_from_sheet :: "sheet \<Rightarrow> error + dict" where
  "load_entries_from_sheet sh = load_loop (get_all_records sh) []"

text \<open>
  \<^verbatim>\<open>
  def save_entries_to_sheet(entries: dict):
      sheet = get_sheet()
      values = [["tag","reasons","note"]]
      for tag, e in entries.items():
          values.append([tag, ",".join(e["reasons"]), e["note"]])
      sheet.clear()
      sheet.update(values)
  \<close>
\<close>

fun save_rows :: "dict \<Rightarrow> grid \<Rightarrow> grid" where
  "save_rows [] vals = vals"
| "save_rows ((tag, e) # rest) vals =
     save_rows rest (vals @ [[tag, join (lit '','') (reasons e), note_text e]])"

definition save_entries_to_sheet :: "dict \<Rightarrow> sheet \<Rightarrow> sheet" where
  "save_entries_to_sheet d sh =
     (let vals = save_rows d [[lit ''tag'', lit ''reasons'', lit ''note'']]
      in sheet_update vals (sheet_clear sh))"

section \<open>The state of a session\<close>

text \<open>
  The labels and messages of the page are Japanese text in the source; the
  listings below give them in English, and the model names each message by
  a constructor of \<open>msg\<close>.  The page is the list of the input controls and
  messages a run renders; titles, headers and tables are left out.
\<close>

text \<open>
  What a run of the script reads and writes: \<open>st.session_state.entries\<close>,
  the sheet, the cache that \<open>@st.cache_data\<close> keeps for \<open>fetch_player\<close>, the
  requests sent to the player API so far (their URLs, oldest first), and
  what the run has put on the page.
\<close>

datatype widget =
    PasswordInput | TagInput | LookupButton | ReasonsSelect | NoteArea | AddButton
  | SaveButton | DeleteButton | SearchInput | SearchButton

datatype msg =
    WrongPassword
  | TagNotFound
  | Found "jval option" "jval option"
  | TagAndReasonsRequired
  | EnterValidTag
  | Added pystr "jval option"
  | Updated pystr
  | RemovedFromBlacklist pystr
  | Removed pystr
  | NoHits
  | PasswordNeeded

datatype ui = Widget widget | StError msg | StSuccess msg | StInfo msg | StCaption msg

record state =
  entries :: dict
  store :: sheet
  cache :: "(pystr \<times> pinfo \<times> nat) list"
  net_log :: "pystr list"
  screen :: "ui list"

definition emit :: "ui \<Rightarrow> state \<Rightarrow> state" where
  "emit u st = st\<lparr>screen := screen st @ [u]\<rparr>"

text \<open>
  A handler ends with \<open>None\<close> when it ran to its end and with \<open>Some e\<close> when it
  raised \<open>e\<close>, together with the state at that moment.  \<open>then_do\<close> runs the
  next statement unless the one before raised.
\<close>

type_synonym outcome = "error option \<times> state"

fun then_do :: "outcome \<Rightarrow> (state \<Rightarrow> outcome) \<Rightarrow> outcome" where
  "then_do (Some e, st) f = (Some e, st)"
| "then_do (None, st) f = f st"

text \<open>
  \<^verbatim>\<open>
  if "entries" not in st.session_state:
      st.session_state.entries = load_entries_from_sheet()
  \<close>
  The start of a session, from a sheet.
\<close>

definition start_session :: "sheet \<Rightarrow> error + state" where
  "start_session sh =
     (case load_entries_from_sheet sh of
        Inl e \<Rightarrow> Inl e
      | Inr d \<Rightarrow> Inr \<lparr>entries = d, store = sh, cache = [], net_log = [], screen = []\<rparr>)"

section \<open>The player client\<close>

text \<open>
  \<open>r.raise_for_status()\<close> of the HTTP library raises for the client and
  server error statuses, 400 to 599, and for no other.
\<close>

definition raise_for_status :: "response \<Rightarrow> error option" where
  "raise_for_status r =
     (if 400 \<le> status_code r \<and> status_code r < 600 then Some (HTTPError (status_code r))
      else None)"

text \<open>
  \<^verbatim>\<open>
  def fetch_player(tag: str) -> dict:
      url = f"https://api.brawlstars.com/v1/players/{encode_tag(tag)}"
      r   = session.get(url, headers=HEADERS)
      if r.status_code in (403, 404):
          return {}
      r.raise_for_status()
      return r.json()
  \<close>
  The body of the function, without its decorator: one request, logged.
\<close>

definition player_url :: "env \<Rightarrow> pystr \<Rightarrow> pystr" where
  "player_url E tag = lit ''https://api.brawlstars.com/v1/players/'' @ encode_tag E tag"

definition fetch_player_body :: "env \<Rightarrow> nat \<Rightarrow> pystr \<Rightarrow> state \<Rightarrow> (error + pinfo) \<times> state" where
  "fetch_player_body E now tag st =
     (let url = player_url E tag;
          r = http_get E url now;
          st1 = st\<lparr>net_log := net_log st @ [url]\<rparr>
      in if status_code r = 403 \<or> status_code r = 404 then (Inr [], st1)
         else (case raise_for_status r of
                 Some e \<Rightarrow> (Inl e, st1)
               | None \<Rightarrow>
                   (case json_body r of
                      None \<Rightarrow> (Inl JSONDecodeError, st1)
                    | Some v \<Rightarrow> (Inr v, st1))))"

text \<open>
  Modelled from the spec: the cache of \<open>@st.cache_data(ttl=600)\<close>, whose code
  is the UI framework's and not this repository's.  The spec: results are
  memoized per identifier for a fixed time window; within the window,
  repeated calls for the same identifier return the cached snapshot without
  a network call; there is only time-based expiry; the structure is
  identifier \<open>\<mapsto>\<close> (value, expiry timestamp), checked before each network
  call.  The key is the argument of the call, the window is the \<open>ttl\<close> of the
  source, 600 seconds, and a call that raises has no result to memoize.
\<close>

definition ttl :: nat where
  "ttl = 600"

text \<open>
  Modelled from the spec: the check before a network call.  An entry is
  good until its expiry timestamp.
\<close>

definition cache_lookup :: "nat \<Rightarrow> pystr \<Rightarrow> (pystr \<times> pinfo \<times> nat) list \<Rightarrow> pinfo option" where
  "cache_lookup now tag c =
     (case map_of c tag of
        None \<Rightarrow> None
      | Some (v, expiry) \<Rightarrow> if now < expiry then Some v else None)"

text \<open>
  Modelled from the spec: memoizing a result, with the time of the call
  plus the window as its expiry timestamp.
\<close>

definition cache_store ::
  "nat \<Rightarrow> pystr \<Rightarrow> pinfo \<Rightarrow> (pystr \<times> pinfo \<times> nat) list \<Rightarrow> (pystr \<times> pinfo \<times> nat) list" where
  "cache_store now tag v c = AList.update tag (v, now + ttl) c"

text \<open>
  The function as the program calls it, with its decorator: the cache is
  asked first; the body runs when the cache has no good entry, and what it
  returns is memoized.
\<close>

definition fetch_player :: "env \<Rightarrow> nat \<Rightarrow> pystr \<Rightarrow> state \<Rightarrow> (error + pinfo) \<times> state" where
  "fetch_player E now tag st =
     (case cache_lookup now tag (cache st) of
        Some v \<Rightarrow> (Inr v, st)
      | None \<Rightarrow>
          (case fetch_player_body E now tag st of
             (Inl e, st1) \<Rightarrow> (Inl e, st1)
           | (Inr v, st1) \<Rightarrow> (Inr v, st1\<lparr>cache := cache_store now tag v (cache st1)\<rparr>)))"

section \<open>Browse and search: the edit and delete handlers\<close>

text \<open>
  \<^verbatim>\<open>
  if st.button("Save", key=f"save_{tag}"):
      st.session_state.entries[tag]["reasons"] = new_reasons
      st.session_state.entries[tag]["note"]    = new_note
      save_entries_to_sheet(st.session_state.entries)
      st.success(f"{tag} updated")
  \<close>
  (the same in both modes).
\<close>

definition save_handler :: "pystr \<Rightarrow> pystr list \<Rightarrow> pystr \<Rightarrow> state \<Rightarrow> outcome" where
  "save_handler tag new_reasons new_note st =
     (case getitem (entries st) tag of
        Inl e \<Rightarrow> (Some e, st)
      | Inr e1 \<Rightarrow>
          (let st1 = st\<lparr>entries := AList.update tag (e1\<lparr>reasons := new_reasons\<rparr>) (entries st)\<rparr>
           in case getitem (entries st1) tag of
                Inl e \<Rightarrow> (Some e, st1)
              | Inr e2 \<Rightarrow>
                  (let st2 = st1\<lparr>entries :=
                               AList.update tag (e2\<lparr>note_text := new_note\<rparr>) (entries st1)\<rparr>;
                       st3 = st2\<lparr>store := save_entries_to_sheet (entries st2) (store st2)\<rparr>
                   in (None, emit (StSuccess (Updated tag)) st3))))"

text \<open>
  \<^verbatim>\<open>
  if st.button("Delete", key=f"del_{tag}"):
      st.session_state.entries.pop(tag)
      save_entries_to_sheet(st.session_state.entries)
      st.success(f"{tag} removed from the blacklist")
  \<close>
  in the browse mode, and the same with the message \<open>{tag} removed\<close> in
  the search mode.
\<close>

definition delete_with :: "msg \<Rightarrow> pystr \<Rightarrow> state \<Rightarrow> outcome" where
  "delete_with m tag st =
     (case dict_pop tag (entries st) of
        Inl e \<Rightarrow> (Some e, st)
      | Inr d \<Rightarrow>
          (let st1 = st\<lparr>entries := d\<rparr>;
               st2 = st1\<lparr>store := save_entries_to_sheet (entries st1) (store st1)\<rparr>
           in (None, emit (StSuccess m) st2)))"

definition browse_delete :: "pystr \<Rightarrow> state \<Rightarrow> outcome" where
  "browse_delete tag st = delete_with (RemovedFromBlacklist tag) tag st"

definition search_delete :: "pystr \<Rightarrow> state \<Rightarrow> outcome" where
  "search_delete tag st = delete_with (Removed tag) tag st"

text \<open>
  The password gate of one detail block (browse mode, lines 113 to 132;
  the search mode has the same block with \<open>search_delete\<close>):
  \<^verbatim>\<open>
  pwd = st.text_input("edit password", type="password", key=f"pwd_{tag}")
  if pwd == PASSWORD:
      new_reasons = st.multiselect(...)
      new_note = st.text_area(...)
      if st.button("Save", ...): ...
      if st.button("Delete", ...): ...
  else:
      st.caption("a password is needed to edit")
  \<close>
\<close>

record edit_input =
  ed_pwd :: pystr
  ed_reasons :: "pystr list"
  ed_note :: pystr
  ed_save :: bool
  ed_delete :: bool

definition edit_block :: "env \<Rightarrow> (pystr \<Rightarrow> state \<Rightarrow> outcome) \<Rightarrow> edit_input \<Rightarrow> pystr \<Rightarrow> state \<Rightarrow> outcome" where
  "edit_block E del inp tag st =
     (let st1 = emit (Widget PasswordInput) st
      in if ed_pwd inp = PASSWORD E then
           (let st2 = emit (Widget NoteArea) (emit (Widget ReasonsSelect) st1);
                st3 = emit (Widget SaveButton) st2
            in then_do
                 (if ed_save inp then save_handler tag (ed_reasons inp) (ed_note inp) st3
                  else (None, st3))
                 (\<lambda>st4. let st5 = emit (Widget DeleteButton) st4
                        in if ed_delete inp then del tag st5 else (None, st5)))
         else (None, emit (StCaption PasswordNeeded) st1))"

definition browse_block :: "env \<Rightarrow> edit_input \<Rightarrow> pystr \<Rightarrow> state \<Rightarrow> outcome" where
  "browse_block E inp tag st = edit_block E browse_delete inp tag st"

definition search_block :: "env \<Rightarrow> edit_input \<Rightarrow> pystr \<Rightarrow> state \<Rightarrow> outcome" where
  "search_block E inp tag st = edit_block E search_delete inp tag st"

section \<open>Search: the filter loop\<close>

text \<open>
  \<^verbatim>\<open>
  q = st.text_input("", placeholder="search word").strip().lower()
  if st.button("Search"):
      hits = []
      for tag, e in st.session_state.entries.items():
          name = fetch_player(tag).get("name","")
          if q in tag.lower() or q in name.lower():
              hits.append((tag, name, e))
  \<close>
  \<open>or\<close> does not evaluate \<open>name.lower()\<close> when the tag matches; when it does, a
  name that is not a string raises.
\<close>

type_synonym hit = "pystr \<times> jval \<times> entry"

fun search_loop :: "env \<Rightarrow> nat \<Rightarrow> pystr \<Rightarrow> dict \<Rightarrow> hit list \<Rightarrow> state \<Rightarrow> (error + hit list) \<times> state" where
  "search_loop E now q [] hits st = (Inr hits, st)"
| "search_loop E now q ((tag, e) # rest) hits st =
     (case fetch_player E now tag st of
        (Inl err, st1) \<Rightarrow> (Inl err, st1)
      | (Inr info, st1) \<Rightarrow>
          (let name = dict_get info (lit ''name'') (JStr [])
           in if str_in q (str_lower E tag) then
                search_loop E now q rest (hits @ [(tag, name, e)]) st1
              else
                (case name of
                   JInt i \<Rightarrow> (Inl AttributeError, st1)
                 | JStr nm \<Rightarrow>
                     if str_in q (str_lower E nm) then
                       search_loop E now q rest (hits @ [(tag, name, e)]) st1
                     else search_loop E now q rest hits st1)))"

definition search_hits :: "env \<Rightarrow> nat \<Rightarrow> pystr \<Rightarrow> state \<Rightarrow> (error + hit list) \<times> state" where
  "search_hits E now query st =
     (let q = str_lower E (strip query)
      in search_loop E now q (entries st) [] st)"

section \<open>Create mode\<close>

text \<open>
  \<^verbatim>\<open>
  if st.form_submit_button("Add"):
      tag = normalize_tag(raw)
      info = fetch_player(tag)
      if not tag or not reasons:
          st.error("tag and reasons are required")
      elif not info:
          st.error("enter a valid tag")
      else:
          st.session_state.entries[tag] = {"reasons": reasons, "note": note}
          save_entries_to_sheet(st.session_state.entries)
          st.success(f"{tag} added: {info.get('name')}")
  \<close>
\<close>

definition add_submit :: "env \<Rightarrow> nat \<Rightarrow> pystr \<Rightarrow> pystr list \<Rightarrow> pystr \<Rightarrow> state \<Rightarrow> outcome" where
  "add_submit E now raw rs n st =
     (let tag = normalize_tag E raw
      in case fetch_player E now tag st of
           (Inl e, st1) \<Rightarrow> (Some e, st1)
         | (Inr info, st1) \<Rightarrow>
             if tag = [] \<or> rs = [] then (None, emit (StError TagAndReasonsRequired) st1)
             else if info = [] then (None, emit (StError EnterValidTag) st1)
             else
               (let st2 = st1\<lparr>entries :=
                            AList.update tag \<lparr>reasons = rs, note_text = n\<rparr> (entries st1)\<rparr>;
                    st3 = st2\<lparr>store := save_entries_to_sheet (entries st2) (store st2)\<rparr>
                in (None, emit (StSuccess (Added tag (map_of info (lit ''name'')))) st3)))"

text \<open>
  \<^verbatim>\<open>
  if st.form_submit_button("Get name"):
      info = fetch_player(raw)
      if not info:
          st.error("tag not found")
      else:
          st.success(f"{info.get('tag')} -> `{info.get('name')}`")
  \<close>
\<close>

definition lookup_submit :: "env \<Rightarrow> nat \<Rightarrow> pystr \<Rightarrow> state \<Rightarrow> outcome" where
  "lookup_submit E now raw st =
     (case fetch_player E now raw st of
        (Inl e, st1) \<Rightarrow> (Some e, st1)
      | (Inr info, st1) \<Rightarrow>
          if info = [] then (None, emit (StError TagNotFound) st1)
          else (None, emit (StSuccess (Found (map_of info (lit ''tag''))
                                             (map_of info (lit ''name'')))) st1))"

text \<open>
  The whole mode (lines 192 to 224): the password field, then either the
  error or the form with its two submit buttons.
\<close>

record create_input =
  cr_pwd :: pystr
  cr_raw :: pystr
  cr_reasons :: "pystr list"
  cr_note :: pystr
  cr_lookup :: bool
  cr_add :: bool

definition create_mode :: "env \<Rightarrow> nat \<Rightarrow> create_input \<Rightarrow> state \<Rightarrow> outcome" where
  "create_mode E now inp st =
     (let st1 = emit (Widget PasswordInput) st
      in if cr_pwd inp \<noteq> PASSWORD E then (None, emit (StError WrongPassword) st1)
         else
           (let raw = strip (cr_raw inp);
                st2 = emit (Widget LookupButton) (emit (Widget TagInput) st1)
            in then_do
                 (if cr_lookup inp then lookup_submit E now raw st2 else (None, st2))
                 (\<lambda>st3. let st4 = emit (Widget AddButton)
                                    (emit (Widget NoteArea) (emit (Widget ReasonsSelect) st3))
                        in if cr_add inp then add_submit E now raw (cr_reasons inp) (cr_note inp) st4
                           else (None, st4))))"

section \<open>A concrete environment\<close>

text \<open>
  The case tables on ASCII (every other code point maps to itself), the
  default password, and a player API given as a function.
\<close>

definition ascii_upper :: "pychar \<Rightarrow> pystr" where
  "ascii_upper c = [if 97 \<le> c \<and> c \<le> 122 then c - 32 else c]"

definition ascii_lower :: "pystr \<Rightarrow> pystr" where
  "ascii_lower s = map (\<lambda>c. if 65 \<le> c \<and> c \<le> 90 then c + 32 else c) s"

definition ascii_env :: "(pystr \<Rightarrow> nat \<Rightarrow> response) \<Rightarrow> env" where
  "ascii_env api =
     \<lparr>char_upper = ascii_upper, str_lower = ascii_lower, PASSWORD = lit ''Debu'',
      http_get = api\<rparr>"

definition always :: "nat \<Rightarrow> pinfo option \<Rightarrow> pystr \<Rightarrow> nat \<Rightarrow> response" where
  "always code body url now = \<lparr>status_code = code, json_body = body\<rparr>"

definition empty_sheet :: sheet where
  "empty_sheet = \<lparr>cells = [], ops = []\<rparr>"

definition empty_state :: state where
  "empty_state = \<lparr>entries = [], store = empty_sheet, cache = [], net_log = [], screen = []\<rparr>"

text \<open>A player record as the API returns it, and the URL of the tag \<open>#ABC\<close>.\<close>

definition bob :: pinfo where
  "bob = [(lit ''name'', JStr (lit ''Bob''))]"

definition abc_url :: pystr where
  "abc_url = lit ''https://api.brawlstars.com/v1/players/%23ABC''"

definition xyz_url :: pystr where
  "xyz_url = lit ''https://api.brawlstars.com/v1/players/%23XYZ''"

text \<open>The two entries of the specification's example, and a session that holds them.\<close>

definition example_entries :: dict where
  "example_entries =
     [(lit ''#ABC'', \<lparr>reasons = [[31070]], note_text = []\<rparr>),
      (lit ''#XYZ'', \<lparr>reasons = [[12487, 12502], [31070]], note_text = lit ''watch''\<rparr>)]"


definition example_state :: state where
  "example_state = empty_state\<lparr>entries := example_entries\<rparr>"

section \<open>Notions of the specification\<close>

text \<open>
  The format of the sheet in the words of the specification: the header
  row \<open>tag,reasons,note\<close>; one row per entry, its reasons joined with a
  comma; a row read back with its reasons cell split on the comma, the
  empty cell giving no reasons.
\<close>

definition spec_header :: "pystr list" where
  "spec_header = [lit ''tag'', lit ''reasons'', lit ''note'']"

definition spec_row :: "pystr \<times> entry \<Rightarrow> pystr list" where
  "spec_row p = [fst p, join (lit '','') (reasons (snd p)), note_text (snd p)]"

definition spec_parse :: "pystr \<times> pystr \<times> pystr \<Rightarrow> pystr \<times> entry" where
  "spec_parse r =
     (fst r, \<lparr>reasons = (if fst (snd r) = [] then [] else split 44 (fst (snd r))),
              note_text = snd (snd r)\<rparr>)"


text \<open>
  A run of lookups one after the other, each at its time, their results
  dropped: what happens between two lookups of one tag (the table of the
  browse mode looks every tag up before the detail blocks look them up
  again).
\<close>

fun fetch_all :: "env \<Rightarrow> (nat \<times> pystr) list \<Rightarrow> state \<Rightarrow> state" where
  "fetch_all E [] st = st"
| "fetch_all E ((t, g) # calls) st = fetch_all E calls (snd (fetch_player E t g st))"

text \<open>
  What the runtime's uppercase table has to satisfy for the statements
  about \<open>normalize_tag\<close>: the marker \<open>#\<close> is its own uppercase, uppercasing
  what is already uppercase changes nothing, and the uppercase of a code
  point that is not white space is not empty and neither begins nor ends
  with white space.  (All three hold of the Unicode tables of Python.)
\<close>

definition case_table_ok :: "env \<Rightarrow> bool" where
  "case_table_ok E \<longleftrightarrow>
     char_upper E 35 = [35] \<and>
     (\<forall>c. upper E (char_upper E c) = char_upper E c) \<and>
     (\<forall>c. \<not> isspace c \<longrightarrow>
          char_upper E c \<noteq> [] \<and> \<not> isspace (hd (char_upper E c)) \<and>
          \<not> isspace (last (char_upper E c)))"





section \<open>Strings: trimming and uppercasing\<close>

lemmas eval_defs =
  lit_def strip_def isspace_def upper_def normalize_tag_def encode_tag_def quote_def quote_byte_def
  utf8_def unreserved_def hex_digit_def ascii_env_def ascii_upper_def ascii_lower_def always_def
  empty_state_def empty_sheet_def player_url_def fetch_player_def fetch_player_body_def
  raise_for_status_def cache_lookup_def cache_store_def ttl_def emit_def add_submit_def
  lookup_submit_def create_mode_def save_entries_to_sheet_def sheet_clear_def sheet_update_def
  load_entries_from_sheet_def get_all_records_def getitem_def dict_get_def split_def
  search_hits_def delete_with_def browse_delete_def search_delete_def dict_pop_def Let_def
  bob_def abc_url_def xyz_url_def

lemma lit_hash: "lit ''#'' = [35]"
  by (simp add: lit_def)

lemma startswith_hash: "startswith s [35] \<longleftrightarrow> (\<exists>r. s = 35 # r)"
  by (cases s) auto

text \<open>\<open>str_in\<close> is the substring relation.\<close>

lemma startswith_iff: "startswith s p \<longleftrightarrow> (\<exists>b. s = p @ b)"
  by (induction s p rule: startswith.induct) auto

lemma str_in_iff: "str_in q s \<longleftrightarrow> (\<exists>a b. s = a @ q @ b)"
proof (induction s)
  case Nil
  then show ?case by simp
next
  case (Cons c cs)
  show ?case
  proof
    assume "str_in q (c # cs)"
    then consider "startswith (c # cs) q" | "str_in q cs" by auto
    then show "\<exists>a b. c # cs = a @ q @ b"
    proof cases
      case 1
      then obtain b where "c # cs = q @ b" by (auto simp: startswith_iff)
      then have "c # cs = [] @ q @ b" by simp
      then show ?thesis by blast
    next
      case 2
      with Cons.IH obtain a b where "cs = a @ q @ b" by blast
      then have "c # cs = (c # a) @ q @ b" by simp
      then show ?thesis by blast
    qed
  next
    assume "\<exists>a b. c # cs = a @ q @ b"
    then obtain a b where ab: "c # cs = a @ q @ b" by blast
    show "str_in q (c # cs)"
    proof (cases a)
      case Nil
      with ab have "startswith (c # cs) q" by (auto simp: startswith_iff)
      then show ?thesis by simp
    next
      case (Cons x xs)
      with ab have "cs = xs @ q @ b" by simp
      with \<open>str_in q cs = (\<exists>a b. cs = a @ q @ b)\<close> have "str_in q cs" by blast
      then show ?thesis by simp
    qed
  qed
qed

lemma last_dropWhile: "dropWhile P xs \<noteq> [] \<Longrightarrow> last (dropWhile P xs) = last xs"
  by (induction xs) (auto split: if_splits)

lemma strip_ends:
  "strip s = [] \<or> (\<not> isspace (hd (strip s)) \<and> \<not> isspace (last (strip s)))"
proof (cases "strip s = []")
  case True
  then show ?thesis by simp
next
  case False
  define a where "a = dropWhile isspace s"
  define b where "b = dropWhile isspace (rev a)"
  have s: "strip s = rev b" by (simp add: strip_def a_def b_def)
  with False have b: "b \<noteq> []" by simp
  then have ra: "rev a \<noteq> []" unfolding b_def by auto
  then have a: "a \<noteq> []" by simp
  have "\<not> isspace (hd b)" using b unfolding b_def by (rule hd_dropWhile)
  then have l: "\<not> isspace (last (rev b))" using b by (simp add: last_rev)
  have "last b = last (rev a)" using b unfolding b_def by (rule last_dropWhile)
  then have "hd (rev b) = hd a" using a b by (simp add: hd_rev last_rev)
  moreover have "\<not> isspace (hd a)" using a unfolding a_def by (rule hd_dropWhile)
  ultimately show ?thesis using l s by simp
qed

lemma strip_id:
  assumes "s = [] \<or> (\<not> isspace (hd s) \<and> \<not> isspace (last s))"
  shows "strip s = s"
proof (cases s)
  case Nil
  then show ?thesis by (simp add: strip_def)
next
  case (Cons c cs)
  with assms have h: "\<not> isspace c" and l: "\<not> isspace (last s)" by auto
  have 1: "dropWhile isspace s = s" using h Cons by simp
  obtain r rs where rr: "rev s = r # rs" using Cons by (cases "rev s") auto
  have "hd (rev s) = last s" using Cons by (simp add: hd_rev)
  then have "r = last s" by (simp only: rr list.sel)
  then have "dropWhile isspace (r # rs) = r # rs" using l by simp
  then have "dropWhile isspace (rev s) = rev s" by (simp only: rr)
  with 1 show ?thesis by (simp add: strip_def)
qed

lemma upper_Nil: "upper E [] = []"
  by (simp add: upper_def)

lemma upper_Cons: "upper E (c # s) = char_upper E c @ upper E s"
  by (simp add: upper_def)

lemma upper_append: "upper E (a @ b) = upper E a @ upper E b"
  by (simp add: upper_def)

lemma upper_idem:
  assumes "\<forall>c. upper E (char_upper E c) = char_upper E c"
  shows "upper E (upper E s) = upper E s"
  using assms by (induction s) (simp_all add: upper_Nil upper_Cons upper_append)

lemma upper_ends:
  assumes U: "\<forall>c. \<not> isspace c \<longrightarrow> char_upper E c \<noteq> [] \<and>
                 \<not> isspace (hd (char_upper E c)) \<and> \<not> isspace (last (char_upper E c))"
    and s: "s \<noteq> []" "\<not> isspace (hd s)" "\<not> isspace (last s)"
  shows "upper E s \<noteq> [] \<and> \<not> isspace (hd (upper E s)) \<and> \<not> isspace (last (upper E s))"
proof -
  obtain c cs where c: "s = c # cs" using s(1) by (cases s) auto
  obtain ds d where d: "s = ds @ [d]" using s(1) by (cases s rule: rev_cases) auto
  have hc: "\<not> isspace c" using s(2) c by simp
  have hd: "\<not> isspace d" using s(3) d by simp
  have 1: "upper E s = char_upper E c @ upper E cs" using c by (simp add: upper_Cons)
  have 2: "upper E s = upper E ds @ char_upper E d"
    using d by (simp add: upper_append upper_Cons upper_Nil)
  from U hc have "char_upper E c \<noteq> []" "\<not> isspace (hd (char_upper E c))" by auto
  with 1 have A: "upper E s \<noteq> [] \<and> \<not> isspace (hd (upper E s))" by simp
  from U hd have "char_upper E d \<noteq> []" "\<not> isspace (last (char_upper E d))" by auto
  with 2 have "\<not> isspace (last (upper E s))" by simp
  with A show ?thesis by simp
qed

lemma strip_upper_strip:
  assumes U: "\<forall>c. \<not> isspace c \<longrightarrow> char_upper E c \<noteq> [] \<and>
                 \<not> isspace (hd (char_upper E c)) \<and> \<not> isspace (last (char_upper E c))"
  shows "strip (upper E (strip s)) = upper E (strip s)"
proof (cases "strip s = []")
  case True
  have "strip (upper E (strip s)) = strip []" by (simp add: True upper_Nil)
  also have "\<dots> = []" by (simp add: strip_def)
  finally show ?thesis by (simp add: True upper_Nil)
next
  case False
  with strip_ends [of s] have "\<not> isspace (hd (strip s))" "\<not> isspace (last (strip s))" by auto
  from upper_ends [OF U False this] show ?thesis by (intro strip_id) simp
qed

lemma normalize_tag_cases:
  "normalize_tag E raw =
     (if startswith (upper E (strip raw)) [35] then upper E (strip raw)
      else 35 # upper E (strip raw))"
  by (simp add: normalize_tag_def Let_def lit_hash)

lemma isspace_hash: "\<not> isspace 35"
  by (simp add: isspace_def)

lemma normalize_idem:
  assumes hash: "char_upper E 35 = [35]"
    and idem: "\<forall>c. upper E (char_upper E c) = char_upper E c"
    and ends: "\<forall>c. \<not> isspace c \<longrightarrow> char_upper E c \<noteq> [] \<and>
                 \<not> isspace (hd (char_upper E c)) \<and> \<not> isspace (last (char_upper E c))"
  shows "normalize_tag E (normalize_tag E x) = normalize_tag E x"
proof -
  define t where "t = upper E (strip x)"
  have st: "strip t = t" unfolding t_def by (rule strip_upper_strip [OF ends])
  have ut: "upper E t = t" unfolding t_def by (rule upper_idem [OF idem])
  show ?thesis
  proof (cases "startswith t [35]")
    case True
    then have "normalize_tag E x = t" by (simp add: normalize_tag_cases t_def)
    moreover have "normalize_tag E t = t" using True st ut by (simp add: normalize_tag_cases)
    ultimately show ?thesis by simp
  next
    case False
    then have n: "normalize_tag E x = 35 # t" by (simp add: normalize_tag_cases t_def)
    have "t = [] \<or> (\<not> isspace (hd t) \<and> \<not> isspace (last t))"
      using strip_ends [of t] st by simp
    then have "strip (35 # t) = 35 # t" using isspace_hash by (intro strip_id) auto
    moreover have "upper E (35 # t) = 35 # t" using hash ut by (simp add: upper_Cons)
    ultimately have "normalize_tag E (35 # t) = 35 # t" by (simp add: normalize_tag_cases)
    with n show ?thesis by simp
  qed
qed

lemma upper_strip_hash:
  assumes "char_upper E 35 = [35]" "startswith (strip z) [35]"
  shows "startswith (upper E (strip z)) [35]"
proof -
  from assms(2) obtain r where "strip z = 35 # r" by (auto simp: startswith_hash)
  then show ?thesis using assms(1) by (simp add: upper_Cons)
qed

section \<open>Normalisation is idempotent\<close>

text \<open>
  C6.  Normalising twice is normalising once, for every input string;
  \<open>normalize_tag\<close> is the identity on a string that is already trimmed,
  already uppercase and already begins with the marker \<open>#\<close>; and an input
  that begins with the marker (after trimming) only gets trimmed and
  uppercased: no second marker is put in front of it.
\<close>

theorem normalize_tag_idempotent:
  assumes "case_table_ok E"
  shows "normalize_tag E (normalize_tag E x) = normalize_tag E x \<and>
         (strip y = y \<and> upper E y = y \<and> startswith y (lit ''#'') \<longrightarrow> normalize_tag E y = y) \<and>
         (startswith (strip z) (lit ''#'') \<longrightarrow> normalize_tag E z = upper E (strip z))"
proof -
  from assms have hash: "char_upper E 35 = [35]"
    and idem: "\<forall>c. upper E (char_upper E c) = char_upper E c"
    and ends: "\<forall>c. \<not> isspace c \<longrightarrow> char_upper E c \<noteq> [] \<and>
                 \<not> isspace (hd (char_upper E c)) \<and> \<not> isspace (last (char_upper E c))"
    unfolding case_table_ok_def by blast+
  have 1: "normalize_tag E (normalize_tag E x) = normalize_tag E x"
    by (rule normalize_idem [OF hash idem ends])
  have 2: "strip y = y \<and> upper E y = y \<and> startswith y (lit ''#'') \<longrightarrow> normalize_tag E y = y"
    by (simp add: normalize_tag_cases lit_hash)
  have 3: "startswith (strip z) (lit ''#'') \<longrightarrow> normalize_tag E z = upper E (strip z)"
    using upper_strip_hash [OF hash, of z] by (simp add: normalize_tag_cases lit_hash)
  from 1 2 3 show ?thesis by blast
qed

theorem normalize_tag_idempotent_witness:
  "normalize_tag (ascii_env (always 404 None)) (lit ''  ab12 '') = lit ''#AB12'' \<and>
   normalize_tag (ascii_env (always 404 None))
     (normalize_tag (ascii_env (always 404 None)) (lit ''  ab12 '')) = lit ''#AB12'' \<and>
   normalize_tag (ascii_env (always 404 None)) (lit ''#AB12'') = lit ''#AB12'' \<and>
   normalize_tag (ascii_env (always 404 None)) (lit '' #ab'') = lit ''#AB''"
proof -
  let ?E = "ascii_env (always 404 None)"
  have ok: "case_table_ok ?E"
    by (auto simp: case_table_ok_def ascii_env_def ascii_upper_def upper_def isspace_def)
  have n: "normalize_tag ?E (lit ''  ab12 '') = lit ''#AB12''"
    by (simp add: normalize_tag_def lit_def strip_def isspace_def upper_def ascii_env_def
        ascii_upper_def)
  have y: "strip (lit ''#AB12'') = lit ''#AB12'' \<and> upper ?E (lit ''#AB12'') = lit ''#AB12'' \<and>
           startswith (lit ''#AB12'') (lit ''#'')"
    by (simp add: lit_def strip_def isspace_def upper_def ascii_env_def ascii_upper_def)
  have z: "startswith (strip (lit '' #ab'')) (lit ''#'') \<and>
           upper ?E (strip (lit '' #ab'')) = lit ''#AB''"
    by (simp add: lit_def strip_def isspace_def upper_def ascii_env_def ascii_upper_def)
  from normalize_tag_idempotent [OF ok, of "lit ''  ab12 ''" "lit ''#AB12''" "lit '' #ab''"] n y z
  show ?thesis by simp
qed

section \<open>Properties of the create mode\<close>

lemma fetch_player_frame:
  assumes "fetch_player E now tag st = (r, st1)"
  shows "entries st1 = entries st \<and> store st1 = store st \<and> screen st1 = screen st"
  using assms
  by (auto simp: fetch_player_def fetch_player_body_def Let_def
      split: option.splits sum.splits prod.splits if_splits)

lemma normalize_tag_nonempty_aux: "normalize_tag E raw \<noteq> []"
  by (auto simp: normalize_tag_cases)

lemma normalize_tag_hash: "startswith (normalize_tag E raw) (lit ''#'')"
  by (simp add: normalize_tag_cases lit_hash)

lemma strip_Nil: "strip [] = []"
  by (simp add: strip_def)

lemma emit_simps:
  "entries (emit u st) = entries st" "store (emit u st) = store st"
  "cache (emit u st) = cache st" "net_log (emit u st) = net_log st"
  "screen (emit u st) = screen st @ [u]"
  by (simp_all add: emit_def)

lemma emit_inject: "emit u st = emit v st \<longleftrightarrow> u = v"
proof
  assume "emit u st = emit v st"
  then have "screen (emit u st) = screen (emit v st)" by simp
  then show "u = v" by (simp add: emit_simps)
qed simp

text \<open>
  C10.  \<open>normalize_tag\<close> never returns the empty string: its result begins
  with the marker \<open>#\<close>, and an empty or all-blank input gives \<open>#\<close>.  So the
  test \<open>not tag\<close> of the submit handler is never true: once the lookup has
  returned, the first error is shown exactly when no reason is selected,
  and an empty identifier with reasons selected is turned down exactly
  when the lookup of \<open>#\<close> returns the empty result; otherwise it is stored
  under the tag \<open>#\<close>.
\<close>

theorem normalize_tag_marked:
  "normalize_tag E raw \<noteq> [] \<and> startswith (normalize_tag E raw) (lit ''#'') \<and>
   (strip raw = [] \<longrightarrow> normalize_tag E raw = lit ''#'') \<and>
   (fetch_player E now (normalize_tag E raw) st = (Inr info, st1) \<longrightarrow>
      (add_submit E now raw rs n st = (None, emit (StError TagAndReasonsRequired) st1))
        = (rs = []) \<and>
      (strip raw = [] \<and> rs \<noteq> [] \<longrightarrow>
         (add_submit E now raw rs n st = (None, emit (StError EnterValidTag) st1)) = (info = []) \<and>
         (info \<noteq> [] \<longrightarrow> map_of (entries (snd (add_submit E now raw rs n st))) (lit ''#'')
                          = Some \<lparr>reasons = rs, note_text = n\<rparr>)))"
proof -
  have 1: "normalize_tag E raw \<noteq> []" by (rule normalize_tag_nonempty_aux)
  have 2: "startswith (normalize_tag E raw) (lit ''#'')" by (rule normalize_tag_hash)
  have 3: "strip raw = [] \<longrightarrow> normalize_tag E raw = lit ''#''"
    by (simp add: normalize_tag_cases lit_hash upper_Nil)
  have 4: "(add_submit E now raw rs n st = (None, emit (StError TagAndReasonsRequired) st1))
        = (rs = [])" if f: "fetch_player E now (normalize_tag E raw) st = (Inr info, st1)"
  proof (cases "rs = []")
    case True
    then show ?thesis using f by (simp add: add_submit_def Let_def)
  next
    case False
    have "screen (snd (add_submit E now raw rs n st)) \<noteq> screen (emit (StError TagAndReasonsRequired) st1)"
      using f False 1 by (simp add: add_submit_def Let_def emit_simps)
    then show ?thesis using False by auto
  qed
  have 5: "(add_submit E now raw rs n st = (None, emit (StError EnterValidTag) st1)) = (info = []) \<and>
         (info \<noteq> [] \<longrightarrow> map_of (entries (snd (add_submit E now raw rs n st))) (lit ''#'')
                          = Some \<lparr>reasons = rs, note_text = n\<rparr>)"
    if f: "fetch_player E now (normalize_tag E raw) st = (Inr info, st1)"
      and e: "strip raw = []" and r: "rs \<noteq> []"
  proof (cases "info = []")
    case True
    then show ?thesis using f r 1 by (simp add: add_submit_def Let_def)
  next
    case False
    have "screen (snd (add_submit E now raw rs n st)) \<noteq> screen (emit (StError EnterValidTag) st1)"
      using f False r 1 by (simp add: add_submit_def Let_def emit_simps)
    then have a: "add_submit E now raw rs n st \<noteq> (None, emit (StError EnterValidTag) st1)" by auto
    have "map_of (entries (snd (add_submit E now raw rs n st))) (lit ''#'')
                          = Some \<lparr>reasons = rs, note_text = n\<rparr>"
      using f False r 1 3 e by (simp add: add_submit_def Let_def emit_simps update_conv')
    with a False show ?thesis by simp
  qed
  from 1 2 3 4 5 show ?thesis by blast
qed

theorem normalize_tag_marked_witness:
  "fetch_player (ascii_env (always 200 (Some bob))) 0
     (normalize_tag (ascii_env (always 200 (Some bob))) []) empty_state
     = (Inr bob, empty_state\<lparr>cache := [(lit ''#'', bob, 600)],
          net_log := [lit ''https://api.brawlstars.com/v1/players/%23'']\<rparr>) \<and>
   add_submit (ascii_env (always 200 (Some bob))) 0 [] [] [] empty_state
     = (None, emit (StError TagAndReasonsRequired)
          (empty_state\<lparr>cache := [(lit ''#'', bob, 600)],
             net_log := [lit ''https://api.brawlstars.com/v1/players/%23'']\<rparr>)) \<and>
   map_of (entries (snd (add_submit (ascii_env (always 200 (Some bob))) 0 [] [[31070]] []
     empty_state))) (lit ''#'') = Some \<lparr>reasons = [[31070]], note_text = []\<rparr>"
proof -
  let ?E = "ascii_env (always 200 (Some bob))"
  let ?st1 = "empty_state\<lparr>cache := [(lit ''#'', bob, 600)],
          net_log := [lit ''https://api.brawlstars.com/v1/players/%23'']\<rparr>"
  have f: "fetch_player ?E 0 (normalize_tag ?E []) empty_state = (Inr bob, ?st1)"
    by (simp add: eval_defs)
  have b: "bob \<noteq> []" by (simp add: bob_def)
  have s: "strip [] = []" by (simp add: strip_def)
  from normalize_tag_marked [where E = ?E and raw = "[]" and now = 0 and st = empty_state
      and info = bob and ?st1.0 = ?st1 and rs = "[]" and n = "[]"] f
  have 1: "add_submit ?E 0 [] [] [] empty_state
             = (None, emit (StError TagAndReasonsRequired) ?st1)" by simp
  from normalize_tag_marked [where E = ?E and raw = "[]" and now = 0 and st = empty_state
      and info = bob and ?st1.0 = ?st1 and rs = "[[31070]]" and n = "[]"] f b s
  have 2: "map_of (entries (snd (add_submit ?E 0 [] [[31070]] [] empty_state))) (lit ''#'')
             = Some \<lparr>reasons = [[31070]], note_text = []\<rparr>" by simp
  from f 1 2 show ?thesis by blast
qed

text \<open>
  C9.  With a password that is not the configured one, the create mode
  shows the password field and the error and nothing else (no field,
  button or form), raises nothing, and leaves the entry mapping and the
  sheet, with its operation log, as they were, whatever else the operator
  entered or pressed.
\<close>

theorem create_mode_gate:
  assumes "cr_pwd inp \<noteq> PASSWORD E"
  shows "create_mode E now inp st =
           (None, st\<lparr>screen := screen st @ [Widget PasswordInput, StError WrongPassword]\<rparr>) \<and>
         entries (snd (create_mode E now inp st)) = entries st \<and>
         store (snd (create_mode E now inp st)) = store st"
  using assms by (simp add: create_mode_def Let_def emit_def)

theorem create_mode_gate_witness:
  "cr_pwd \<lparr>cr_pwd = lit ''debu'', cr_raw = lit ''abc'', cr_reasons = [[31070]], cr_note = [],
           cr_lookup = True, cr_add = True\<rparr> \<noteq> PASSWORD (ascii_env (always 200 (Some bob))) \<and>
   create_mode (ascii_env (always 200 (Some bob))) 0
     \<lparr>cr_pwd = lit ''debu'', cr_raw = lit ''abc'', cr_reasons = [[31070]], cr_note = [],
      cr_lookup = True, cr_add = True\<rparr> empty_state
   = (None, empty_state\<lparr>screen := [Widget PasswordInput, StError WrongPassword]\<rparr>)"
proof -
  let ?inp = "\<lparr>cr_pwd = lit ''debu'', cr_raw = lit ''abc'', cr_reasons = [[31070]], cr_note = [],
           cr_lookup = True, cr_add = True\<rparr>"
  let ?E = "ascii_env (always 200 (Some bob))"
  have h: "cr_pwd ?inp \<noteq> PASSWORD ?E" by (simp add: ascii_env_def lit_def)
  from create_mode_gate [OF h, of 0 empty_state] h show ?thesis
    by (simp add: empty_state_def)
qed

text \<open>
  C3, as stated, fails: with no reason selected and a lookup that raises
  (the API answers 500), the handler raises before it validates and shows
  no inline error.
\<close>

theorem add_submit_raises_before_validation:
  "fst (add_submit (ascii_env (always 500 None)) 0 (lit ''abc'') [] [] empty_state)
     = Some (HTTPError 500) \<and>
   screen (snd (add_submit (ascii_env (always 500 None)) 0 (lit ''abc'') [] [] empty_state)) = []"
  by (simp add: eval_defs)

text \<open>
  C3, amended.  The handler looks the tag up first.  When the lookup
  returns and no reason is selected or the lookup result is empty, the
  submission is turned down with an inline error (the first message when
  no reason is selected, the second otherwise); when the lookup raises, the
  handler raises that error.  In all these cases the entry mapping and the
  sheet, with its log of operations, are as before: nothing is saved.
\<close>

theorem add_submit_rejects:
  "(fetch_player E now (normalize_tag E raw) st = (Inr info, st1) \<and> (rs = [] \<or> info = []) \<longrightarrow>
      add_submit E now raw rs n st =
        (None, emit (StError (if rs = [] then TagAndReasonsRequired else EnterValidTag)) st1) \<and>
      entries (snd (add_submit E now raw rs n st)) = entries st \<and>
      store (snd (add_submit E now raw rs n st)) = store st) \<and>
   (fetch_player E now (normalize_tag E raw) st = (Inl e, st1) \<longrightarrow>
      add_submit E now raw rs n st = (Some e, st1) \<and> entries st1 = entries st \<and> store st1 = store st)"
proof -
  have A: "add_submit E now raw rs n st =
        (None, emit (StError (if rs = [] then TagAndReasonsRequired else EnterValidTag)) st1) \<and>
      entries (snd (add_submit E now raw rs n st)) = entries st \<and>
      store (snd (add_submit E now raw rs n st)) = store st"
    if f: "fetch_player E now (normalize_tag E raw) st = (Inr info, st1)" and r: "rs = [] \<or> info = []"
  proof -
    have "add_submit E now raw rs n st =
        (None, emit (StError (if rs = [] then TagAndReasonsRequired else EnterValidTag)) st1)"
      using f r normalize_tag_nonempty_aux [of E raw] by (auto simp: add_submit_def Let_def)
    then show ?thesis using fetch_player_frame [OF f] by (simp add: emit_simps)
  qed
  have B: "add_submit E now raw rs n st = (Some e, st1) \<and> entries st1 = entries st \<and> store st1 = store st"
    if f: "fetch_player E now (normalize_tag E raw) st = (Inl e, st1)"
    using f fetch_player_frame [OF f] by (simp add: add_submit_def Let_def)
  from A B show ?thesis by blast
qed

theorem add_submit_rejects_witness:
  "add_submit (ascii_env (always 404 None)) 0 (lit ''abc'') [[31070]] [] empty_state
     = (None, emit (StError EnterValidTag)
          (empty_state\<lparr>cache := [(lit ''#ABC'', [], 600)], net_log := [abc_url]\<rparr>)) \<and>
   entries (snd (add_submit (ascii_env (always 404 None)) 0 (lit ''abc'') [[31070]] []
     empty_state)) = [] \<and>
   store (snd (add_submit (ascii_env (always 404 None)) 0 (lit ''abc'') [[31070]] []
     empty_state)) = empty_sheet \<and>
   add_submit (ascii_env (always 500 None)) 0 (lit ''abc'') [] [] empty_state
     = (Some (HTTPError 500), empty_state\<lparr>net_log := [abc_url]\<rparr>)"
proof -
  let ?E = "ascii_env (always 404 None)"
  let ?F = "ascii_env (always 500 None)"
  let ?st1 = "empty_state\<lparr>cache := [(lit ''#ABC'', [], 600)], net_log := [abc_url]\<rparr>"
  let ?st2 = "empty_state\<lparr>net_log := [abc_url]\<rparr>"
  have f: "fetch_player ?E 0 (normalize_tag ?E (lit ''abc'')) empty_state = (Inr [], ?st1)"
    by (simp add: eval_defs)
  have g: "fetch_player ?F 0 (normalize_tag ?F (lit ''abc'')) empty_state
             = (Inl (HTTPError 500), ?st2)"
    by (simp add: eval_defs)
  have e: "entries empty_state = [] \<and> store empty_state = empty_sheet"
    by (simp add: empty_state_def)
  from add_submit_rejects [where E = ?E and now = 0 and raw = "lit ''abc''" and st = empty_state
      and info = "[]" and ?st1.0 = ?st1 and rs = "[[31070]]" and n = "[]"] f e
  have 1: "add_submit ?E 0 (lit ''abc'') [[31070]] [] empty_state
             = (None, emit (StError EnterValidTag) ?st1) \<and>
           entries (snd (add_submit ?E 0 (lit ''abc'') [[31070]] [] empty_state)) = [] \<and>
           store (snd (add_submit ?E 0 (lit ''abc'') [[31070]] [] empty_state)) = empty_sheet"
    by (simp add: emit_simps)
  from add_submit_rejects [where E = ?F and now = 0 and raw = "lit ''abc''" and st = empty_state
      and ?st1.0 = ?st2 and rs = "[]" and n = "[]" and e = "HTTPError 500"] g
  have 2: "add_submit ?F 0 (lit ''abc'') [] [] empty_state = (Some (HTTPError 500), ?st2)"
    by simp
  from 1 2 show ?thesis by blast
qed

section \<open>Properties of the entry store\<close>

lemma lit_comma: "lit '','' = [44]"
  by (simp add: lit_def)

lemma save_rows_eq: "save_rows d vals = vals @ map spec_row d"
  by (induction d vals rule: save_rows.induct) (simp_all add: spec_row_def)

lemma overwrite_Nil: "overwrite vs [] = vs"
  by (induction vs) simp_all

lemma cells_save: "cells (save_entries_to_sheet d sh) = spec_header # map spec_row d"
  by (simp add: save_entries_to_sheet_def Let_def sheet_update_def sheet_clear_def
      save_rows_eq overwrite_Nil spec_header_def)

lemma ops_save:
  "ops (save_entries_to_sheet d sh) = ops sh @ [Clear, Update (spec_header # map spec_row d)]"
  by (simp add: save_entries_to_sheet_def Let_def sheet_update_def sheet_clear_def
      save_rows_eq spec_header_def)

lemma getitem_record:
  "getitem (zip spec_header [t, c, n]) (lit ''tag'') = Inr t"
  "getitem (zip spec_header [t, c, n]) (lit ''reasons'') = Inr c"
  "getitem (zip spec_header [t, c, n]) (lit ''note'') = Inr n"
  by (simp_all add: getitem_def spec_header_def lit_def)

lemma load_loop_rows:
  "load_loop (map (\<lambda>r. zip spec_header [fst r, fst (snd r), snd (snd r)]) rows) acc =
     Inr (foldl (\<lambda>a r. AList.update (fst (spec_parse r)) (snd (spec_parse r)) a) acc rows)"
proof (induction rows arbitrary: acc)
  case Nil
  then show ?case by simp
next
  case (Cons r rows)
  show ?case by (simp add: getitem_record Cons.IH spec_parse_def)
qed

lemma foldl_update_keys:
  "fst ` set (foldl (\<lambda>a r. AList.update (f r) (g r) a) acc rows) = fst ` set acc \<union> f ` set rows"
  by (induction rows arbitrary: acc) (auto simp: dom_update)

lemma foldl_update_map_of:
  "map_of (foldl (\<lambda>a r. AList.update (f r) (g r) a) acc rows)
     = map_of (rev (map (\<lambda>r. (f r, g r)) rows) @ acc)"
proof (induction rows arbitrary: acc)
  case Nil
  then show ?case by simp
next
  case (Cons r rows)
  show ?case by (simp add: Cons.IH update_conv' map_add_def fun_eq_iff split: option.splits)
qed

lemma update_fresh: "k \<notin> fst ` set al \<Longrightarrow> AList.update k v al = al @ [(k, v)]"
  by (induction al) auto

lemma foldl_update_distinct:
  assumes "distinct (map f rows)" "f ` set rows \<inter> fst ` set acc = {}"
  shows "foldl (\<lambda>a r. AList.update (f r) (g r) a) acc rows = acc @ map (\<lambda>r. (f r, g r)) rows"
  using assms
proof (induction rows arbitrary: acc)
  case Nil
  then show ?case by simp
next
  case (Cons r rows)
  from Cons.prems have fresh: "f r \<notin> fst ` set acc" by auto
  have "f ` set rows \<inter> fst ` set (acc @ [(f r, g r)]) = {}"
    using Cons.prems by auto
  with Cons.IH [of "acc @ [(f r, g r)]"] Cons.prems(1) show ?case
    by (simp add: update_fresh [OF fresh])
qed




lemma split_acc_not_Nil: "split_acc sep acc c \<noteq> []"
  by (induction c arbitrary: acc) auto

lemma join_split_acc: "join [sep] (split_acc sep acc c) = rev acc @ c"
proof (induction c arbitrary: acc)
  case Nil
  then show ?case by simp
next
  case (Cons a c)
  show ?case
  proof (cases "a = sep")
    case True
    obtain f fs where "split_acc sep [] c = f # fs"
      using split_acc_not_Nil [of sep "[]" c] by (cases "split_acc sep [] c") auto
    moreover have "join [sep] (split_acc sep [] c) = c" using Cons.IH [of "[]"] by simp
    ultimately show ?thesis using True by simp
  next
    case False
    then show ?thesis using Cons.IH [of "a # acc"] by simp
  qed
qed

lemma split_acc_fields: "sep \<notin> set acc \<Longrightarrow> sep \<notin> set (concat (split_acc sep acc c))"
proof (induction c arbitrary: acc)
  case Nil
  then show ?case by simp
next
  case (Cons a c)
  show ?case
  proof (cases "a = sep")
    case True
    have "sep \<notin> set (concat (split_acc sep [] c))" by (rule Cons.IH) simp
    with Cons.prems True show ?thesis by simp
  next
    case False
    with Cons.prems have "sep \<notin> set (a # acc)" by simp
    from Cons.IH [OF this] False show ?thesis by simp
  qed
qed


lemma get_all_records_cells:
  "get_all_records \<lparr>cells = spec_header # map (\<lambda>r. [fst r, fst (snd r), snd (snd r)]) rows, ops = l\<rparr>
     = map (\<lambda>r. zip spec_header [fst r, fst (snd r), snd (snd r)]) rows"
  by (simp add: get_all_records_def)

lemma load_rows:
  "load_entries_from_sheet
     \<lparr>cells = spec_header # map (\<lambda>r. [fst r, fst (snd r), snd (snd r)]) rows, ops = l\<rparr>
   = Inr (foldl (\<lambda>a r. AList.update (fst (spec_parse r)) (snd (spec_parse r)) a) [] rows)"
  unfolding load_entries_from_sheet_def get_all_records_cells by (rule load_loop_rows)

lemma fst_parse_row: "fst (spec_parse r) = fst r"
  by (simp add: spec_parse_def)

lemma load_save:
  "load_entries_from_sheet (save_entries_to_sheet d sh)
   = Inr (foldl (\<lambda>a r. AList.update (fst (spec_parse r)) (snd (spec_parse r)) a) []
           (map (\<lambda>p. (fst p, join (lit '','') (reasons (snd p)), note_text (snd p))) d))"
proof -
  let ?rows = "map (\<lambda>p. (fst p, join (lit '','') (reasons (snd p)), note_text (snd p))) d"
  have "get_all_records (save_entries_to_sheet d sh)
          = map (\<lambda>r. zip spec_header [fst r, fst (snd r), snd (snd r)]) ?rows"
    by (simp add: get_all_records_def cells_save spec_row_def comp_def)
  then show ?thesis
    unfolding load_entries_from_sheet_def by (simp only: load_loop_rows)
qed

lemma load_save_keys:
  "\<exists>d'. load_entries_from_sheet (save_entries_to_sheet d sh) = Inr d' \<and> fst ` set d' = fst ` set d"
  by (simp add: load_save foldl_update_keys fst_parse_row image_image)





text \<open>
  What the loader reads is never the single empty string: an empty cell is
  read as no reasons, and a cell that is not empty never splits into one
  empty field.
\<close>

lemma split_not_single_empty: "c \<noteq> [] \<Longrightarrow> split 44 c \<noteq> [[]]"
proof
  assume c: "c \<noteq> []" and "split 44 c = [[]]"
  then have "join [44] (split_acc 44 [] c) = []" by (simp add: split_def)
  with c show False by (simp add: join_split_acc)
qed

lemma set_update_subset: "set (AList.update k v al) \<subseteq> insert (k, v) (set al)"
  by (induction al) auto

lemma load_loop_never_single_empty:
  assumes "load_loop recs acc = Inr d" "\<forall>p \<in> set acc. reasons (snd p) \<noteq> [[]]"
  shows "\<forall>p \<in> set d. reasons (snd p) \<noteq> [[]]"
  using assms
proof (induction recs arbitrary: acc)
  case Nil
  then show ?case by simp
next
  case (Cons r recs)
  from Cons.prems(1) obtain tag rs n where
    l: "load_loop recs (AList.update tag
          \<lparr>reasons = (if rs \<noteq> [] then split 44 rs else []), note_text = n\<rparr> acc) = Inr d"
    by (auto split: sum.splits)
  define v where "v = \<lparr>reasons = (if rs \<noteq> [] then split 44 rs else []), note_text = n\<rparr>"
  have rv: "reasons v \<noteq> [[]]"
    using split_not_single_empty [of rs] by (simp add: v_def)
  have "\<forall>p \<in> set (AList.update tag v acc). reasons (snd p) \<noteq> [[]]"
  proof
    fix p assume "p \<in> set (AList.update tag v acc)"
    with set_update_subset [of tag v acc] have "p = (tag, v) \<or> p \<in> set acc" by auto
    with rv Cons.prems(2) show "reasons (snd p) \<noteq> [[]]" by auto
  qed
  then have "\<forall>p \<in> set (AList.update tag
          \<lparr>reasons = (if rs \<noteq> [] then split 44 rs else []), note_text = n\<rparr> acc).
          reasons (snd p) \<noteq> [[]]" by (simp only: v_def)
  from Cons.IH [OF l this] show ?case .
qed

lemma load_never_single_empty:
  "load_entries_from_sheet sh = Inr d \<Longrightarrow> \<forall>p \<in> set d. reasons (snd p) \<noteq> [[]]"
  unfolding load_entries_from_sheet_def
  using load_loop_never_single_empty [of "get_all_records sh" "[]" d] by simp

lemma dict_pop_Some:
  "tag \<in> fst ` set d \<Longrightarrow> dict_pop tag d = Inr (AList.delete tag d)"
  by (auto simp: dict_pop_def map_of_eq_None_iff split: option.splits)

text \<open>
  C7.  \<open>save_entries_to_sheet\<close> clears the sheet and then writes, so that
  whatever the sheet held before, it holds exactly the header row
  \<open>tag,reasons,note\<close> followed by one row per entry, in the order of the
  mapping, with the reasons joined by commas.  \<open>load_entries_from_sheet\<close> on a
  sheet of that shape succeeds and reads each row with its reasons cell
  split on the comma, the empty cell as no reasons (a later row with the
  same tag replaces an earlier one; with distinct tags the result is the
  rows in order).  Splitting on the comma: the fields hold no comma and
  joined with commas give the cell back; the empty cell splits into one
  empty field.
\<close>

theorem save_load_format:
  "cells (save_entries_to_sheet d sh) = spec_header # map spec_row d \<and>
   ops (save_entries_to_sheet d sh) = ops sh @ [Clear, Update (spec_header # map spec_row d)] \<and>
   (\<exists>x. load_entries_from_sheet
           \<lparr>cells = spec_header # map (\<lambda>r. [fst r, fst (snd r), snd (snd r)]) rows, ops = l\<rparr> = Inr x \<and>
        map_of x = map_of (rev (map spec_parse rows)) \<and>
        (distinct (map fst rows) \<longrightarrow> x = map spec_parse rows)) \<and>
   join (lit '','') (split 44 c) = c \<and> 44 \<notin> set (concat (split 44 c)) \<and> split 44 [] = [[]]"
proof -
  let ?x = "foldl (\<lambda>a r. AList.update (fst (spec_parse r)) (snd (spec_parse r)) a) [] rows"
  have 1: "map_of ?x = map_of (rev (map spec_parse rows))"
    by (simp add: foldl_update_map_of)
  have 2: "distinct (map fst rows) \<longrightarrow> ?x = map spec_parse rows"
  proof
    assume "distinct (map fst rows)"
    then have "distinct (map (\<lambda>r. fst (spec_parse r)) rows)" by (simp add: fst_parse_row)
    then show "?x = map spec_parse rows"
      by (subst foldl_update_distinct) simp_all
  qed
  have 3: "join (lit '','') (split 44 c) = c"
    by (simp add: split_def lit_comma join_split_acc)
  have 4: "44 \<notin> set (concat (split 44 c))"
    unfolding split_def by (rule split_acc_fields) simp
  have 5: "split 44 [] = [[]]" by (simp add: split_def)
  from load_rows [of rows l] 1 2 3 4 5 cells_save [of d sh] ops_save [of d sh]
  show ?thesis by blast
qed

theorem save_load_format_witness:
  "distinct (map fst [(lit ''#ABC'', lit ''a,b'', lit ''n''), (lit ''#XYZ'', [], [])]) \<and>
   load_entries_from_sheet
     \<lparr>cells = [[lit ''tag'', lit ''reasons'', lit ''note''],
               [lit ''#ABC'', lit ''a,b'', lit ''n''], [lit ''#XYZ'', [], []]], ops = []\<rparr>
   = Inr [(lit ''#ABC'', \<lparr>reasons = [lit ''a'', lit ''b''], note_text = lit ''n''\<rparr>),
          (lit ''#XYZ'', \<lparr>reasons = [], note_text = []\<rparr>)]"
proof -
  let ?rows = "[(lit ''#ABC'', lit ''a,b'', lit ''n''), (lit ''#XYZ'', [], [])]"
  have d: "distinct (map fst ?rows)" by (simp add: lit_def)
  have p: "map spec_parse ?rows
             = [(lit ''#ABC'', \<lparr>reasons = [lit ''a'', lit ''b''], note_text = lit ''n''\<rparr>),
                (lit ''#XYZ'', \<lparr>reasons = [], note_text = []\<rparr>)]"
    by (simp add: spec_parse_def split_def lit_def)
  from save_load_format [where rows = ?rows and l = "[]"] d
  have "load_entries_from_sheet
          \<lparr>cells = spec_header # map (\<lambda>r. [fst r, fst (snd r), snd (snd r)]) ?rows, ops = []\<rparr>
        = Inr (map spec_parse ?rows)" by auto
  with d p show ?thesis by (simp add: spec_header_def)
qed



text \<open>
  C8.  In a session that holds an entry for a tag, the delete handler (of
  the browse mode and of the search mode alike) ends without raising,
  removes the tag from the entry mapping and saves the mapping that
  results; a load of the sheet after that succeeds and does not hold the
  tag.
\<close>

theorem delete_removes:
  assumes "tag \<in> fst ` set (entries st)"
  shows "(\<exists>st'. browse_delete tag st = (None, st') \<and>
           entries st' = AList.delete tag (entries st) \<and> tag \<notin> fst ` set (entries st') \<and>
           store st' = save_entries_to_sheet (entries st') (store st) \<and>
           (\<exists>d. load_entries_from_sheet (store st') = Inr d \<and> tag \<notin> fst ` set d)) \<and>
         (\<exists>st'. search_delete tag st = (None, st') \<and>
           entries st' = AList.delete tag (entries st) \<and> tag \<notin> fst ` set (entries st') \<and>
           store st' = save_entries_to_sheet (entries st') (store st) \<and>
           (\<exists>d. load_entries_from_sheet (store st') = Inr d \<and> tag \<notin> fst ` set d))"
proof -
  have A: "\<exists>st'. delete_with m tag st = (None, st') \<and>
           entries st' = AList.delete tag (entries st) \<and> tag \<notin> fst ` set (entries st') \<and>
           store st' = save_entries_to_sheet (entries st') (store st) \<and>
           (\<exists>d. load_entries_from_sheet (store st') = Inr d \<and> tag \<notin> fst ` set d)" for m
  proof -
    let ?d = "AList.delete tag (entries st)"
    let ?st' = "emit (StSuccess m) (st\<lparr>entries := ?d, store := save_entries_to_sheet ?d (store st)\<rparr>)"
    have 1: "delete_with m tag st = (None, ?st')"
      using dict_pop_Some [OF assms] by (simp add: delete_with_def Let_def)
    have 2: "tag \<notin> fst ` set ?d" by (rule delete_notin_dom)
    obtain d' where "load_entries_from_sheet (save_entries_to_sheet ?d (store st)) = Inr d'"
      "fst ` set d' = fst ` set ?d" using load_save_keys by blast
    with 1 2 show ?thesis by (simp add: emit_def)
  qed
  from A [of "RemovedFromBlacklist tag"] A [of "Removed tag"] show ?thesis
    unfolding browse_delete_def search_delete_def by blast
qed

theorem delete_removes_witness:
  "lit ''#ABC'' \<in> fst ` set (entries example_state) \<and>
   fst (browse_delete (lit ''#ABC'') example_state) = None \<and>
   entries (snd (browse_delete (lit ''#ABC'') example_state))
     = [(lit ''#XYZ'', \<lparr>reasons = [[12487, 12502], [31070]], note_text = lit ''watch''\<rparr>)] \<and>
   load_entries_from_sheet (store (snd (search_delete (lit ''#ABC'') example_state)))
     = Inr [(lit ''#XYZ'', \<lparr>reasons = [[12487, 12502], [31070]], note_text = lit ''watch''\<rparr>)]"
proof -
  have h: "lit ''#ABC'' \<in> fst ` set (entries example_state)"
    by (simp add: example_state_def example_entries_def empty_state_def)
  have d: "AList.delete (lit ''#ABC'') (entries example_state)
             = [(lit ''#XYZ'', \<lparr>reasons = [[12487, 12502], [31070]], note_text = lit ''watch''\<rparr>)]"
    by (simp add: example_state_def example_entries_def empty_state_def lit_def)
  from delete_removes [OF h] obtain st1 st2 where
    b: "browse_delete (lit ''#ABC'') example_state = (None, st1)"
      "entries st1 = AList.delete (lit ''#ABC'') (entries example_state)"
    and s: "search_delete (lit ''#ABC'') example_state = (None, st2)"
      "entries st2 = AList.delete (lit ''#ABC'') (entries example_state)"
      "store st2 = save_entries_to_sheet (entries st2) (store example_state)"
    by blast
  have l: "load_entries_from_sheet (save_entries_to_sheet
             [(lit ''#XYZ'', \<lparr>reasons = [[12487, 12502], [31070]], note_text = lit ''watch''\<rparr>)]
             (store example_state))
           = Inr [(lit ''#XYZ'', \<lparr>reasons = [[12487, 12502], [31070]], note_text = lit ''watch''\<rparr>)]"
    by (simp add: eval_defs example_state_def)
  from h b s d l show ?thesis by simp
qed

section \<open>Properties of the player client\<close>


lemma fetch_body_state:
  "snd (fetch_player_body E now tag st) = st\<lparr>net_log := net_log st @ [player_url E tag]\<rparr>"
  by (simp add: fetch_player_body_def Let_def split: option.splits)

lemma fetch_hit:
  "cache_lookup now tag (cache st) = Some v \<Longrightarrow> fetch_player E now tag st = (Inr v, st)"
  by (simp add: fetch_player_def)

lemma fetch_miss:
  assumes "cache_lookup now tag (cache st) = None"
  shows "fetch_player E now tag st =
     (case fst (fetch_player_body E now tag st) of
        Inl e \<Rightarrow> (Inl e, st\<lparr>net_log := net_log st @ [player_url E tag]\<rparr>)
      | Inr v \<Rightarrow> (Inr v, st\<lparr>net_log := net_log st @ [player_url E tag],
                           cache := cache_store now tag v (cache st)\<rparr>))"
proof -
  obtain r s where b: "fetch_player_body E now tag st = (r, s)" by (cases "fetch_player_body E now tag st")
  with fetch_body_state [of E now tag st] have "s = st\<lparr>net_log := net_log st @ [player_url E tag]\<rparr>"
    by simp
  with b assms show ?thesis by (simp add: fetch_player_def split: sum.splits)
qed



lemma ttl_pos: "now < now + ttl"
  by (simp add: ttl_def)


lemma fetch_raise_miss:
  assumes "fetch_player E t tag st = (Inl e, st1)"
  shows "cache_lookup t tag (cache st) = None \<and> cache st1 = cache st \<and>
         net_log st1 = net_log st @ [player_url E tag]"
proof (cases "cache_lookup t tag (cache st)")
  case None
  with assms fetch_miss [OF None, of E] show ?thesis by (auto split: sum.splits)
next
  case (Some v)
  with assms show ?thesis by (simp add: fetch_hit)
qed

lemma cache_lookup_later:
  "cache_lookup t1 tag c = None \<Longrightarrow> t1 \<le> t2 \<Longrightarrow> cache_lookup t2 tag c = None"
  by (auto simp: cache_lookup_def split: option.splits if_splits)

lemma fetch_cache_cases:
  "cache (snd (fetch_player E t g st)) = cache st \<or>
   (cache_lookup t g (cache st) = None \<and>
    (\<exists>v. cache (snd (fetch_player E t g st)) = cache_store t g v (cache st)))"
proof (cases "cache_lookup t g (cache st)")
  case None
  show ?thesis unfolding fetch_miss [OF None] using None by (auto split: sum.splits)
next
  case (Some v)
  then show ?thesis by (simp add: fetch_hit)
qed

lemma fetch_other_entry:
  assumes "g \<noteq> tag"
  shows "map_of (cache (snd (fetch_player E t g st))) tag = map_of (cache st) tag"
  using fetch_cache_cases [of E t g st] assms
  by (auto simp: cache_store_def update_conv')

lemma fetch_same_live:
  assumes "map_of (cache st) tag = Some (v, x)" "t < x"
  shows "snd (fetch_player E t tag st) = st"
proof -
  have "cache_lookup t tag (cache st) = Some v" using assms by (simp add: cache_lookup_def)
  then show ?thesis by (simp add: fetch_hit)
qed

lemma fetch_all_keeps_entry:
  assumes "map_of (cache st) tag = Some (v, x)"
    and "\<forall>c \<in> set calls. snd c \<noteq> tag \<or> fst c < x"
  shows "map_of (cache (fetch_all E calls st)) tag = Some (v, x)"
  using assms
proof (induction calls arbitrary: st)
  case Nil
  then show ?case by simp
next
  case (Cons c calls)
  obtain t g where c: "c = (t, g)" by (cases c)
  have "map_of (cache (snd (fetch_player E t g st))) tag = Some (v, x)"
  proof (cases "g = tag")
    case True
    with Cons.prems c have "t < x" by simp
    with fetch_same_live [OF Cons.prems(1) this, of E] True Cons.prems(1) show ?thesis by simp
  next
    case False
    with fetch_other_entry [OF False, of E t st] Cons.prems(1) show ?thesis by simp
  qed
  with Cons.IH [of "snd (fetch_player E t g st)"] Cons.prems(2) c show ?case by simp
qed

lemma fetch_all_other_lookup:
  assumes "\<forall>c \<in> set calls. snd c \<noteq> tag"
  shows "map_of (cache (fetch_all E calls st)) tag = map_of (cache st) tag"
  using assms
proof (induction calls arbitrary: st)
  case Nil
  then show ?case by simp
next
  case (Cons c calls)
  obtain t g where c: "c = (t, g)" by (cases c)
  with Cons.prems have "g \<noteq> tag" by simp
  from fetch_other_entry [OF this, of E t st] Cons.IH [of "snd (fetch_player E t g st)"] Cons.prems c
  show ?case by simp
qed

lemma cache_lookup_cong:
  "map_of c tag = map_of c' tag \<Longrightarrow> cache_lookup t tag c = cache_lookup t tag c'"
  by (simp add: cache_lookup_def)

lemma fetch_log_le:
  "length (net_log (snd (fetch_player E now tag st))) \<le> length (net_log st) + 1"
proof (cases "cache_lookup now tag (cache st)")
  case None
  show ?thesis unfolding fetch_miss [OF None] by (simp split: sum.splits)
next
  case (Some v)
  then show ?thesis by (simp add: fetch_hit)
qed

text \<open>
  C2, as stated, fails: a status that is neither a success nor in the
  range 400 to 599, such as 300, does not make \<open>raise_for_status\<close> raise, and
  the lookup returns the JSON of the body.
\<close>

theorem fetch_player_returns_on_300:
  "fst (fetch_player (ascii_env (always 300 (Some bob))) 0 (lit ''#ABC'') empty_state) = Inr bob"
  by (simp add: eval_defs)

text \<open>
  C2, amended.  For every tag, a lookup that goes to the network returns
  the empty result, without raising, when the status is 403 or 404; raises
  \<open>HTTPError\<close> when the status is any other from 400 to 599; and for a status
  below 400 or from 600 on returns the JSON of the body, or raises
  \<open>JSONDecodeError\<close> when the body is not JSON.
\<close>

theorem fetch_player_status:
  assumes miss: "cache_lookup now tag (cache st) = None"
    and s: "s = status_code (http_get E (player_url E tag) now)"
  shows "(s = 403 \<or> s = 404 \<longrightarrow> fst (fetch_player E now tag st) = Inr []) \<and>
         (400 \<le> s \<and> s < 600 \<and> s \<noteq> 403 \<and> s \<noteq> 404 \<longrightarrow>
            fst (fetch_player E now tag st) = Inl (HTTPError s)) \<and>
         (s < 400 \<or> 600 \<le> s \<longrightarrow>
            fst (fetch_player E now tag st) =
              (case json_body (http_get E (player_url E tag) now) of
                 None \<Rightarrow> Inl JSONDecodeError
               | Some v \<Rightarrow> Inr v))"
proof -
  have b: "fst (fetch_player_body E now tag st) =
      (if s = 403 \<or> s = 404 then Inr []
       else if 400 \<le> s \<and> s < 600 then Inl (HTTPError s)
       else (case json_body (http_get E (player_url E tag) now) of
                 None \<Rightarrow> Inl JSONDecodeError
               | Some v \<Rightarrow> Inr v))"
    by (simp add: fetch_player_body_def Let_def raise_for_status_def s split: option.splits)
  have "fst (fetch_player E now tag st) = fst (fetch_player_body E now tag st)"
    unfolding fetch_miss [OF miss] by (simp split: sum.splits)
  with b show ?thesis by auto
qed

theorem fetch_player_status_witness:
  "cache_lookup 0 (lit ''#ABC'') (cache empty_state) = None \<and>
   fst (fetch_player (ascii_env (always 404 None)) 0 (lit ''#ABC'') empty_state) = Inr [] \<and>
   fst (fetch_player (ascii_env (always 500 None)) 0 (lit ''#ABC'') empty_state)
     = Inl (HTTPError 500) \<and>
   fst (fetch_player (ascii_env (always 200 (Some bob))) 0 (lit ''#ABC'') empty_state) = Inr bob"
proof -
  have m: "cache_lookup 0 (lit ''#ABC'') (cache empty_state) = None"
    by (simp add: cache_lookup_def empty_state_def)
  have s: "status_code (http_get (ascii_env (always c b)) u 0) = c"
    "json_body (http_get (ascii_env (always c b)) u 0) = b" for c b u
    by (simp_all add: ascii_env_def always_def)
  from fetch_player_status [OF m refl, of "ascii_env (always 404 None)"]
  have 1: "fst (fetch_player (ascii_env (always 404 None)) 0 (lit ''#ABC'') empty_state) = Inr []"
    by (simp add: s)
  from fetch_player_status [OF m refl, of "ascii_env (always 500 None)"]
  have 2: "fst (fetch_player (ascii_env (always 500 None)) 0 (lit ''#ABC'') empty_state)
     = Inl (HTTPError 500)"
    by (simp add: s)
  from fetch_player_status [OF m refl, of "ascii_env (always 200 (Some bob))"]
  have 3: "fst (fetch_player (ascii_env (always 200 (Some bob))) 0 (lit ''#ABC'') empty_state)
     = Inr bob"
    by (simp add: s)
  from m 1 2 3 show ?thesis by blast
qed

text \<open>
  C4, as stated, fails: a lookup that raises is not memoized, so two
  lookups of one tag one second apart, both answered with 500, send two
  requests.
\<close>

theorem errors_are_not_cached:
  "net_log (snd (fetch_player (ascii_env (always 500 None)) 1 (lit ''#ABC'')
      (snd (fetch_player (ascii_env (always 500 None)) 0 (lit ''#ABC'') empty_state))))
   = [abc_url, abc_url]"
  by (simp add: eval_defs)

text \<open>
  C4, amended.  The window is 600 seconds, and results are memoized per
  tag: lookups of other tags in between, at any time, and lookups of the
  same tag before its entry expires, change nothing of what follows.  When
  a lookup of a tag at time \<open>t1\<close> returns a value, a later lookup of the tag
  before \<open>t1 + 600\<close> leaves the number of requests sent by the two together
  at one at most.  When the first lookup went to the network, it sent one
  request; a later lookup before \<open>t1 + 600\<close> sends none and returns the same
  value; a later lookup at \<open>t1 + 600\<close> or after sends a new request.  A lookup
  that raises went to the network, sent one request and left the cache as
  it was: the next lookup of the tag sends a request again.
\<close>

theorem cache_window:
  assumes first: "fetch_player E t1 tag st = (r, st1)"
    and between: "\<forall>c \<in> set calls. snd c \<noteq> tag \<or> fst c < t1 + ttl"
    and s: "s = fetch_all E calls st1"
  shows "ttl = 600 \<and>
         (r = Inr v \<and> t2 < t1 + ttl \<longrightarrow>
            (length (net_log st1) - length (net_log st)) +
            (length (net_log (snd (fetch_player E t2 tag s))) - length (net_log s)) \<le> 1) \<and>
         (r = Inr v \<and> cache_lookup t1 tag (cache st) = None \<longrightarrow>
            net_log st1 = net_log st @ [player_url E tag] \<and>
            (t2 < t1 + ttl \<longrightarrow> fetch_player E t2 tag s = (Inr v, s)) \<and>
            (t1 + ttl \<le> t2 \<longrightarrow>
               net_log (snd (fetch_player E t2 tag s)) = net_log s @ [player_url E tag])) \<and>
         (r = Inl e \<longrightarrow>
            cache st1 = cache st \<and> net_log st1 = net_log st @ [player_url E tag] \<and>
            ((\<forall>c \<in> set calls. snd c \<noteq> tag) \<and> t1 \<le> t2 \<longrightarrow>
               net_log (snd (fetch_player E t2 tag s)) = net_log s @ [player_url E tag]))"
proof -
  have A: "net_log st1 = net_log st @ [player_url E tag] \<and>
            (t2 < t1 + ttl \<longrightarrow> fetch_player E t2 tag s = (Inr v, s)) \<and>
            (t1 + ttl \<le> t2 \<longrightarrow>
               net_log (snd (fetch_player E t2 tag s)) = net_log s @ [player_url E tag])"
    if r: "r = Inr v" and miss: "cache_lookup t1 tag (cache st) = None"
  proof -
    from first r fetch_miss [OF miss, of E]
    have st1: "st1 = st\<lparr>net_log := net_log st @ [player_url E tag],
                           cache := cache_store t1 tag v (cache st)\<rparr>"
      by (auto split: sum.splits)
    have 1: "net_log st1 = net_log st @ [player_url E tag]" by (simp add: st1)
    have "map_of (cache st1) tag = Some (v, t1 + ttl)"
      by (simp add: st1 cache_store_def update_conv')
    from fetch_all_keeps_entry [OF this between, of E]
    have e: "map_of (cache s) tag = Some (v, t1 + ttl)" by (simp add: s)
    have 2: "fetch_player E t2 tag s = (Inr v, s)" if "t2 < t1 + ttl"
      by (rule fetch_hit) (simp add: cache_lookup_def e that)
    have 3: "net_log (snd (fetch_player E t2 tag s)) = net_log s @ [player_url E tag]"
      if "t1 + ttl \<le> t2"
    proof -
      have "cache_lookup t2 tag (cache s) = None" using that by (simp add: cache_lookup_def e)
      from fetch_miss [OF this, of E] show ?thesis by (simp split: sum.splits)
    qed
    from 1 2 3 show ?thesis by blast
  qed
  have B: "(length (net_log st1) - length (net_log st)) +
            (length (net_log (snd (fetch_player E t2 tag s))) - length (net_log s)) \<le> 1"
    if r: "r = Inr v" and w: "t2 < t1 + ttl"
  proof (cases "cache_lookup t1 tag (cache st)")
    case None
    from A [OF r None] w show ?thesis by simp
  next
    case (Some u)
    with first have "st1 = st" by (simp add: fetch_hit)
    then show ?thesis using fetch_log_le [of E t2 tag s] by simp
  qed
  have C: "cache st1 = cache st \<and> net_log st1 = net_log st @ [player_url E tag] \<and>
            ((\<forall>c \<in> set calls. snd c \<noteq> tag) \<and> t1 \<le> t2 \<longrightarrow>
               net_log (snd (fetch_player E t2 tag s)) = net_log s @ [player_url E tag])"
    if r: "r = Inl e"
  proof -
    from fetch_raise_miss [of E t1 tag st e st1] first r
    have m: "cache_lookup t1 tag (cache st) = None" and c: "cache st1 = cache st"
      and l: "net_log st1 = net_log st @ [player_url E tag]" by simp_all
    have "net_log (snd (fetch_player E t2 tag s)) = net_log s @ [player_url E tag]"
      if o: "\<forall>c \<in> set calls. snd c \<noteq> tag" and t: "t1 \<le> t2"
    proof -
      have "map_of (cache s) tag = map_of (cache st) tag"
        using fetch_all_other_lookup [OF o, of E st1] c by (simp add: s)
      then have "cache_lookup t2 tag (cache s) = cache_lookup t2 tag (cache st)"
        by (rule cache_lookup_cong)
      with cache_lookup_later [OF m t] have "cache_lookup t2 tag (cache s) = None" by simp
      from fetch_miss [OF this, of E] show ?thesis by (simp split: sum.splits)
    qed
    with c l show ?thesis by blast
  qed
  from A B C show ?thesis by (auto simp: ttl_def)
qed

theorem cache_window_witness:
  "fetch_player (ascii_env (always 200 (Some bob))) 2 (lit ''#ABC'')
     (fetch_all (ascii_env (always 200 (Some bob))) [(1, lit ''#XYZ'')]
        (snd (fetch_player (ascii_env (always 200 (Some bob))) 0 (lit ''#ABC'') empty_state)))
   = (Inr bob, empty_state\<lparr>cache := [(lit ''#ABC'', bob, 600), (lit ''#XYZ'', bob, 601)],
                           net_log := [abc_url, xyz_url]\<rparr>) \<and>
   net_log (snd (fetch_player (ascii_env (always 200 (Some bob))) 600 (lit ''#ABC'')
     (fetch_all (ascii_env (always 200 (Some bob))) [(1, lit ''#XYZ'')]
        (snd (fetch_player (ascii_env (always 200 (Some bob))) 0 (lit ''#ABC'') empty_state)))))
   = [abc_url, xyz_url, abc_url] \<and>
   net_log (snd (fetch_player (ascii_env (always 500 None)) 2 (lit ''#ABC'')
     (fetch_all (ascii_env (always 500 None)) [(1, lit ''#XYZ'')]
        (snd (fetch_player (ascii_env (always 500 None)) 0 (lit ''#ABC'') empty_state)))))
   = [abc_url, xyz_url, abc_url]"
proof -
  let ?E = "ascii_env (always 200 (Some bob))"
  let ?F = "ascii_env (always 500 None)"
  let ?calls = "[(1::nat, lit ''#XYZ'')]"
  let ?st1 = "empty_state\<lparr>cache := [(lit ''#ABC'', bob, 600)], net_log := [abc_url]\<rparr>"
  let ?s = "empty_state\<lparr>cache := [(lit ''#ABC'', bob, 600), (lit ''#XYZ'', bob, 601)],
                           net_log := [abc_url, xyz_url]\<rparr>"
  let ?st2 = "empty_state\<lparr>net_log := [abc_url]\<rparr>"
  let ?s2 = "empty_state\<lparr>net_log := [abc_url, xyz_url]\<rparr>"
  have f: "fetch_player ?E 0 (lit ''#ABC'') empty_state = (Inr bob, ?st1)"
    by (simp add: eval_defs)
  have s: "?s = fetch_all ?E ?calls ?st1"
    by (simp add: eval_defs xyz_url_def)
  have g: "fetch_player ?F 0 (lit ''#ABC'') empty_state = (Inl (HTTPError 500), ?st2)"
    by (simp add: eval_defs)
  have s2: "?s2 = fetch_all ?F ?calls ?st2"
    by (simp add: eval_defs xyz_url_def)
  have b: "\<forall>c \<in> set ?calls. snd c \<noteq> lit ''#ABC'' \<or> fst c < 0 + ttl"
    by (simp add: lit_def)
  have o: "\<forall>c \<in> set ?calls. snd c \<noteq> lit ''#ABC''"
    by (simp add: lit_def)
  have m: "cache_lookup 0 (lit ''#ABC'') (cache empty_state) = None"
    by (simp add: cache_lookup_def empty_state_def)
  have u: "player_url ?E (lit ''#ABC'') = abc_url" "player_url ?F (lit ''#ABC'') = abc_url"
    by (simp_all add: eval_defs)
  have n: "net_log ?s = [abc_url, xyz_url]" "net_log ?s2 = [abc_url, xyz_url]"
    by (simp_all add: empty_state_def)
  from cache_window [OF f b s, where v = bob and ?t2.0 = 2] m
  have 1: "fetch_player ?E 2 (lit ''#ABC'') ?s = (Inr bob, ?s)" by (simp add: ttl_def)
  from cache_window [OF f b s, where v = bob and ?t2.0 = 600] m u n
  have 2: "net_log (snd (fetch_player ?E 600 (lit ''#ABC'') ?s)) = [abc_url, xyz_url, abc_url]"
    by (simp add: ttl_def)
  from cache_window [OF g b s2, where e = "HTTPError 500" and ?t2.0 = 2] o u n
  have 3: "net_log (snd (fetch_player ?F 2 (lit ''#ABC'') ?s2)) = [abc_url, xyz_url, abc_url]"
    by simp
  from 1 2 3 f g s s2 show ?thesis by simp
qed

section \<open>Properties of the search\<close>






end
